theory Spec2Isabelle
  imports Main "HOL-Library.Sublist"
begin

section \<open>Strings and values of the platform\<close>

text \<open>
  A string of the source is a finite sequence of code units; \<open>string\<close> (a list of
  characters) stands for it, one \<open>char\<close> for each code unit. Indices and lengths
  count code units, as \<open>text.length\<close>, \<open>indexOf\<close> and \<open>slice\<close> do.

  The parameters of \<open>matchesQuery\<close> and of the two snippet functions have the type
  \<open>string | undefined | null\<close>: the datatype \<open>textval\<close> has one constructor for each
  alternative.
\<close>

datatype textval = Undefined | Null | Str string

text \<open>\<open>!text\<close> is true for \<open>undefined\<close>, for \<open>null\<close> and for the empty string.\<close>

fun truthy :: "textval \<Rightarrow> bool" where
  "truthy Undefined = False"
| "truthy Null = False"
| "truthy (Str s) = (s \<noteq> [])"

text \<open>
  \<open>StringIndexOf string searchValue fromIndex\<close> of the language standard: the
  candidates \<open>i\<close> with \<open>fromIndex \<le> i \<le> len - searchLen\<close> are tried in ascending
  order, and the first one at which the code units of \<open>searchValue\<close> are found is
  returned; \<open>-1\<close> stands for "not found".
\<close>

function StringIndexOf :: "string \<Rightarrow> string \<Rightarrow> nat \<Rightarrow> int" where
  "StringIndexOf s searchValue i =
     (if length s < i + length searchValue then - 1
      else if take (length searchValue) (drop i s) = searchValue then int i
      else StringIndexOf s searchValue (Suc i))"
  by pat_completeness auto
termination
  by (relation "measure (\<lambda>(s, searchValue, i). Suc (length s) - i)") auto

declare StringIndexOf.simps [simp del]

text \<open>
  \<open>s.indexOf(q)\<close> and \<open>s.includes(q)\<close> both search from position 0
  (\<open>includes_str\<close> is \<open>String.prototype.includes\<close>).
\<close>

definition indexOf :: "string \<Rightarrow> string \<Rightarrow> int" where
  "indexOf s searchString = StringIndexOf s searchString 0"

definition includes_str :: "string \<Rightarrow> string \<Rightarrow> bool" where
  "includes_str s searchString = (StringIndexOf s searchString 0 \<noteq> - 1)"

text \<open>
  \<open>s.slice(start, end)\<close> for integer arguments: a negative argument counts from the
  end of the string, both bounds are brought into \<open>0 .. len\<close>, and the result is empty
  when the bounds cross.
\<close>

definition slice :: "string \<Rightarrow> int \<Rightarrow> int \<Rightarrow> string" where
  "slice s start fin =
     (let len = int (length s);
          from = (if start < 0 then max (len + start) 0 else min start len);
          to = (if fin < 0 then max (len + fin) 0 else min fin len)
      in take (nat (to - from)) (drop (nat from) s))"

text \<open>The three dots that mark a truncated snippet.\<close>

definition ellipsis :: string where
  "ellipsis = ''...''"

section \<open>The matcher and the snippet extractors\<close>

text \<open>
  \<open>toLowerCase\<close> is the platform's lowercase transform. It is not part of the
  repository, so every function that calls it takes it as its first argument; nothing
  is assumed about it (it may change the length of a string).
\<close>

definition matchesQuery :: "(string \<Rightarrow> string) \<Rightarrow> textval \<Rightarrow> string \<Rightarrow> bool" where
  "matchesQuery toLowerCase text query =
     (if \<not> truthy text then False
      else case text of
        Str t \<Rightarrow> includes_str (toLowerCase t) (toLowerCase query)
      | _ \<Rightarrow> False)"

text \<open>
  \<open>contextChars\<close> is a number of characters, a natural number (150 wherever the
  source calls the function); the positions \<open>idx\<close>, \<open>start\<close> and \<open>end\<close> are integers,
  with \<open>-1\<close> for "not found". The result \<open>string | null\<close> is a \<open>string option\<close>,
  \<open>None\<close> for \<open>null\<close>.
\<close>

definition extractSnippet ::
  "(string \<Rightarrow> string) \<Rightarrow> textval \<Rightarrow> string \<Rightarrow> nat \<Rightarrow> string option" where
  "extractSnippet toLowerCase text query contextChars =
     (if \<not> truthy text then None
      else case text of
        Str t \<Rightarrow>
          (let lower = toLowerCase t;
               idx = indexOf lower (toLowerCase query)
           in if idx = - 1 then None
              else
                let start = max 0 (idx - int contextChars);
                    fin = min (int (length t)) (idx + int (length query) + int contextChars);
                    snippet = slice t start fin;
                    snippet = (if start > 0 then ellipsis @ snippet else snippet);
                    snippet = (if fin < int (length t) then snippet @ ellipsis else snippet)
                in Some snippet)
      | _ \<Rightarrow> None)"

definition extractPlainTextSnippet ::
  "(string \<Rightarrow> string) \<Rightarrow> textval \<Rightarrow> string \<Rightarrow> nat \<Rightarrow> string option" where
  "extractPlainTextSnippet toLowerCase text query contextChars =
     (if \<not> truthy text then None
      else case text of
        Str t \<Rightarrow>
          (let lower = toLowerCase t;
               idx = indexOf lower (toLowerCase query)
           in if idx = - 1 then None
              else
                let start = max 0 (idx - int contextChars);
                    fin = min (int (length t)) (idx + int (length query) + int contextChars);
                    snippet = slice t start fin;
                    snippet = (if start > 0 then ellipsis @ snippet else snippet);
                    snippet = (if fin < int (length t) then snippet @ ellipsis else snippet)
                in Some snippet)
      | _ \<Rightarrow> None)"

text \<open>A lowercase transform for the ASCII letters, used to run the functions on examples.\<close>

definition ascii_lower :: "string \<Rightarrow> string" where
  "ascii_lower s =
     map (\<lambda>c. let n = (of_char c :: nat) in if 65 \<le> n \<and> n \<le> 90 then char_of (n + 32) else c) s"

section \<open>Flattening of markup and of rich text\<close>

text \<open>
  \<open>html.replace(/<[^>]*>/g, "")\<close>: scanning from the left, a \<open><\<close> that is followed
  somewhere by a \<open>>\<close> is removed together with everything up to and including the
  first such \<open>>\<close>; any other code unit is kept.
\<close>

function stripHtml :: "string \<Rightarrow> string" where
  "stripHtml [] = []"
| "stripHtml (c # cs) =
     (if c = CHR ''<'' \<and> CHR ''>'' \<in> set cs
      then stripHtml (tl (dropWhile (\<lambda>x. x \<noteq> CHR ''>'') cs))
      else c # stripHtml cs)"
  by pat_completeness auto
termination
proof (relation "measure length")
  fix c :: char and cs :: string
  have "length (tl (dropWhile (\<lambda>x. x \<noteq> CHR ''>'') cs)) \<le> length cs"
    using length_dropWhile_le [of "\<lambda>x. x \<noteq> CHR ''>''" cs] by simp
  then show "(tl (dropWhile (\<lambda>x. x \<noteq> CHR ''>'') cs), c # cs) \<in> measure length"
    by simp
qed auto

text \<open>\<open>parts.join(sep)\<close> for an array of strings.\<close>

fun join :: "string \<Rightarrow> string list \<Rightarrow> string" where
  "join sep [] = []"
| "join sep [x] = x"
| "join sep (x # y # ys) = x @ sep @ join sep (y # ys)"

text \<open>
  A node of a rich-text document, as far as \<open>extractTextFromRichText\<close> reads it: the
  properties \<open>nodeType\<close> and \<open>value\<close>, and \<open>content\<close>, which is an array of nodes when
  \<open>Array.isArray\<close> holds (\<open>Some\<close>) and anything else otherwise (\<open>None\<close>). An element of
  the array, like the document itself, may be missing (\<open>None\<close>).
\<close>

datatype rtnode =
  RTNode (nodeType: textval) (nodeValue: textval) (content: "rtnode option list option")

fun extractTextFromRichText :: "rtnode option \<Rightarrow> string" where
  "extractTextFromRichText None = []"
| "extractTextFromRichText (Some (RTNode ty v c)) =
     (if ty = Str ''text'' then (case v of Str s \<Rightarrow> s | _ \<Rightarrow> [])
      else case c of
        Some children \<Rightarrow> join '' '' (map extractTextFromRichText children)
      | None \<Rightarrow> [])"

section \<open>Values shared by the tools\<close>

text \<open>A value interpolated into a template literal.\<close>

fun ToString :: "textval \<Rightarrow> string" where
  "ToString Undefined = ''undefined''"
| "ToString Null = ''null''"
| "ToString (Str s) = s"

text \<open>
  \<open>a || b\<close> on two snippet results: \<open>a\<close> when it is truthy (a non-empty string),
  otherwise \<open>b\<close>.
\<close>

definition or_snippet :: "string option \<Rightarrow> string option \<Rightarrow> string option" where
  "or_snippet a b = (case a of Some s \<Rightarrow> if s \<noteq> [] then a else b | None \<Rightarrow> b)"

text \<open>
  A rich-text field of a Contentful item is an object with the document under \<open>json\<close>;
  \<open>item.content?.json\<close> is missing when the object or the document is.
\<close>

record rich_field =
  json :: "rtnode option"

definition json_of :: "rich_field option \<Rightarrow> rtnode option" where
  "json_of field = (case field of None \<Rightarrow> None | Some f \<Rightarrow> json f)"

section \<open>Tools 1 and 2: blog posts and blog pages (Ghost)\<close>

record ghost_tag =
  tag_name :: textval

record ghost_post =
  post_title :: textval
  post_slug :: textval
  post_excerpt :: textval
  post_html :: textval
  post_published_at :: textval
  post_tags :: "ghost_tag list option"

record blog_post_match =
  bpm_title :: textval
  bpm_slug :: textval
  bpm_url :: string
  bpm_excerpt :: textval
  bpm_published_at :: textval
  bpm_tags :: "textval list option"
  bpm_matched_snippet :: "string option"

text \<open>\<open>p.html ? stripHtml(p.html) : ""\<close>\<close>

definition bodyText_of_html :: "textval \<Rightarrow> string" where
  "bodyText_of_html html =
     (if truthy html then (case html of Str h \<Rightarrow> stripHtml h | _ \<Rightarrow> []) else [])"

text \<open>\<open>p.excerpt?.slice(0, 200)\<close>\<close>

definition excerpt_200 :: "textval \<Rightarrow> textval" where
  "excerpt_200 excerpt = (case excerpt of Str e \<Rightarrow> Str (slice e 0 200) | _ \<Rightarrow> Undefined)"

text \<open>
  The handler of \<open>search_blog_posts\<close> after the records have been fetched: \<open>posts\<close> is
  the array returned by \<open>fetchAllGhostRecords\<close>, the result is the array \<open>matches\<close>.
\<close>

definition search_blog_posts ::
  "(string \<Rightarrow> string) \<Rightarrow> ghost_post list \<Rightarrow> string \<Rightarrow> blog_post_match list" where
  "search_blog_posts toLowerCase posts query =
     map (\<lambda>p.
            let bodyText = bodyText_of_html (post_html p)
            in \<lparr> bpm_title = post_title p,
                 bpm_slug = post_slug p,
                 bpm_url = ''/blog/'' @ ToString (post_slug p),
                 bpm_excerpt = excerpt_200 (post_excerpt p),
                 bpm_published_at = post_published_at p,
                 bpm_tags = map_option (map tag_name) (post_tags p),
                 bpm_matched_snippet = extractSnippet toLowerCase (Str bodyText) query 150 \<rparr>)
       (filter (\<lambda>p.
            let bodyText = bodyText_of_html (post_html p)
            in matchesQuery toLowerCase (post_title p) query \<or>
               matchesQuery toLowerCase (post_excerpt p) query \<or>
               matchesQuery toLowerCase (Str bodyText) query)
          posts)"

record ghost_page =
  page_title :: textval
  page_slug :: textval
  page_html :: textval

record blog_page_match =
  bgm_title :: textval
  bgm_slug :: textval
  bgm_url :: string
  bgm_matched_snippet :: "string option"

definition search_blog_pages ::
  "(string \<Rightarrow> string) \<Rightarrow> ghost_page list \<Rightarrow> string \<Rightarrow> blog_page_match list" where
  "search_blog_pages toLowerCase pages query =
     map (\<lambda>p.
            let bodyText = bodyText_of_html (page_html p)
            in \<lparr> bgm_title = page_title p,
                 bgm_slug = page_slug p,
                 bgm_url = ''/blog/'' @ ToString (page_slug p),
                 bgm_matched_snippet = extractSnippet toLowerCase (Str bodyText) query 150 \<rparr>)
       (filter (\<lambda>p.
            let bodyText = bodyText_of_html (page_html p)
            in matchesQuery toLowerCase (page_title p) query \<or>
               matchesQuery toLowerCase (Str bodyText) query)
          pages)"

section \<open>Tool 3: learn pages (Contentful)\<close>

record learn_section =
  sec_title :: textval
  sec_url :: textval

record learn_page =
  lp_title :: textval
  lp_url :: textval
  lp_section :: "learn_section option"
  lp_subSection :: textval
  lp_metaTitle :: textval
  lp_metaDescription :: textval
  lp_content :: "rich_field option"

record learn_page_match =
  lpm_title :: textval
  lpm_url :: string
  lpm_section :: textval
  lpm_subSection :: textval
  lpm_metaDescription :: textval
  lpm_matched_snippet :: "string option"

definition search_learn_pages ::
  "(string \<Rightarrow> string) \<Rightarrow> learn_page list \<Rightarrow> string \<Rightarrow> learn_page_match list" where
  "search_learn_pages toLowerCase items query =
     map (\<lambda>item.
            let bodyText = extractTextFromRichText (json_of (lp_content item))
            in \<lparr> lpm_title = lp_title item,
                 lpm_url = (case lp_section item of
                              Some section \<Rightarrow>
                                ''/learn/'' @ ToString (sec_url section) @ ''/'' @
                                ToString (lp_url item)
                            | None \<Rightarrow> ''/learn/'' @ ToString (lp_url item)),
                 lpm_section = (case lp_section item of
                                  Some section \<Rightarrow> sec_title section
                                | None \<Rightarrow> Undefined),
                 lpm_subSection = lp_subSection item,
                 lpm_metaDescription = lp_metaDescription item,
                 lpm_matched_snippet =
                   or_snippet (extractPlainTextSnippet toLowerCase (lp_title item) query 150)
                  (or_snippet (extractPlainTextSnippet toLowerCase (lp_metaTitle item) query 150)
                  (or_snippet (extractPlainTextSnippet toLowerCase (lp_metaDescription item) query 150)
                              (extractPlainTextSnippet toLowerCase (Str bodyText) query 150))) \<rparr>)
       (filter (\<lambda>item.
            let bodyText = extractTextFromRichText (json_of (lp_content item))
            in matchesQuery toLowerCase (lp_title item) query \<or>
               matchesQuery toLowerCase (lp_metaTitle item) query \<or>
               matchesQuery toLowerCase (lp_metaDescription item) query \<or>
               matchesQuery toLowerCase (Str bodyText) query)
          items)"

section \<open>Tool 4: case studies (Contentful)\<close>

record case_study =
  cs_name :: textval
  cs_slug :: textval
  cs_externalLink :: textval
  cs_overview :: textval
  cs_category :: textval
  cs_useCase :: textval
  cs_impact :: textval
  cs_quoteText :: textval
  cs_metaTitle :: textval
  cs_metaDescription :: textval
  cs_content :: "rich_field option"

record case_study_match =
  csm_name :: textval
  csm_slug :: textval
  csm_url :: string
  csm_overview :: textval
  csm_category :: textval
  csm_useCase :: textval
  csm_impact :: textval
  csm_matched_snippet :: "string option"

definition search_case_studies ::
  "(string \<Rightarrow> string) \<Rightarrow> case_study list \<Rightarrow> string \<Rightarrow> case_study_match list" where
  "search_case_studies toLowerCase items query =
     map (\<lambda>item.
            let bodyText = extractTextFromRichText (json_of (cs_content item))
            in \<lparr> csm_name = cs_name item,
                 csm_slug = cs_slug item,
                 csm_url = (if truthy (cs_externalLink item) then ToString (cs_externalLink item)
                            else ''/case-studies/'' @ ToString (cs_slug item)),
                 csm_overview = cs_overview item,
                 csm_category = cs_category item,
                 csm_useCase = cs_useCase item,
                 csm_impact = cs_impact item,
                 csm_matched_snippet =
                   or_snippet (extractPlainTextSnippet toLowerCase (cs_name item) query 150)
                  (or_snippet (extractPlainTextSnippet toLowerCase (cs_metaTitle item) query 150)
                  (or_snippet (extractPlainTextSnippet toLowerCase (cs_metaDescription item) query 150)
                  (or_snippet (extractPlainTextSnippet toLowerCase (cs_overview item) query 150)
                  (or_snippet (extractPlainTextSnippet toLowerCase (cs_quoteText item) query 150)
                  (or_snippet (extractPlainTextSnippet toLowerCase (cs_useCase item) query 150)
                  (or_snippet (extractPlainTextSnippet toLowerCase (cs_impact item) query 150)
                              (extractPlainTextSnippet toLowerCase (Str bodyText) query 150))))))) \<rparr>)
       (filter (\<lambda>item.
            let bodyText = extractTextFromRichText (json_of (cs_content item))
            in matchesQuery toLowerCase (cs_name item) query \<or>
               matchesQuery toLowerCase (cs_metaTitle item) query \<or>
               matchesQuery toLowerCase (cs_metaDescription item) query \<or>
               matchesQuery toLowerCase (cs_overview item) query \<or>
               matchesQuery toLowerCase (cs_quoteText item) query \<or>
               matchesQuery toLowerCase (cs_useCase item) query \<or>
               matchesQuery toLowerCase (cs_impact item) query \<or>
               matchesQuery toLowerCase (Str bodyText) query)
          items)"

section \<open>Tool 5: events (Contentful)\<close>

record internal_event =
  ie_heroTitle :: textval
  ie_metaDescription :: textval
  ie_url :: textval
  ie_eventDate :: textval
  ie_additionalEventDetails :: "rich_field option"
  ie_agenda :: "rich_field option"

record event_card =
  ec_title :: textval
  ec_description :: textval
  ec_link :: textval
  ec_date :: textval

record event_match =
  em_type :: string
  em_title :: textval
  em_description :: textval
  em_url :: textval
  em_date :: textval
  em_matched_snippet :: "string option"

definition matchedInternal ::
  "(string \<Rightarrow> string) \<Rightarrow> internal_event list \<Rightarrow> string \<Rightarrow> event_match list" where
  "matchedInternal toLowerCase internalEvents query =
     map (\<lambda>evt.
            let detailsText = extractTextFromRichText (json_of (ie_additionalEventDetails evt));
                agendaText = extractTextFromRichText (json_of (ie_agenda evt))
            in \<lparr> em_type = ''internal_event'',
                 em_title = ie_heroTitle evt,
                 em_description = ie_metaDescription evt,
                 em_url = Str (''/events/'' @ ToString (ie_url evt)),
                 em_date = ie_eventDate evt,
                 em_matched_snippet =
                   or_snippet (extractPlainTextSnippet toLowerCase (ie_heroTitle evt) query 150)
                  (or_snippet (extractPlainTextSnippet toLowerCase (ie_metaDescription evt) query 150)
                  (or_snippet (extractPlainTextSnippet toLowerCase (Str detailsText) query 150)
                              (extractPlainTextSnippet toLowerCase (Str agendaText) query 150))) \<rparr>)
       (filter (\<lambda>evt.
            let detailsText = extractTextFromRichText (json_of (ie_additionalEventDetails evt));
                agendaText = extractTextFromRichText (json_of (ie_agenda evt))
            in matchesQuery toLowerCase (ie_heroTitle evt) query \<or>
               matchesQuery toLowerCase (ie_metaDescription evt) query \<or>
               matchesQuery toLowerCase (Str detailsText) query \<or>
               matchesQuery toLowerCase (Str agendaText) query)
          internalEvents)"

definition matchedCards ::
  "(string \<Rightarrow> string) \<Rightarrow> event_card list \<Rightarrow> string \<Rightarrow> event_match list" where
  "matchedCards toLowerCase eventCards query =
     map (\<lambda>evt.
            \<lparr> em_type = ''event_card'',
              em_title = ec_title evt,
              em_description = ec_description evt,
              em_url = ec_link evt,
              em_date = ec_date evt,
              em_matched_snippet =
                or_snippet (extractPlainTextSnippet toLowerCase (ec_title evt) query 150)
                           (extractPlainTextSnippet toLowerCase (ec_description evt) query 150) \<rparr>)
       (filter (\<lambda>evt.
            matchesQuery toLowerCase (ec_title evt) query \<or>
            matchesQuery toLowerCase (ec_description evt) query)
          eventCards)"

definition search_events ::
  "(string \<Rightarrow> string) \<Rightarrow> internal_event list \<Rightarrow> event_card list \<Rightarrow> string
     \<Rightarrow> event_match list" where
  "search_events toLowerCase internalEvents eventCards query =
     matchedInternal toLowerCase internalEvents query @ matchedCards toLowerCase eventCards query"

section \<open>Notions of the specification\<close>

text \<open>
  The following definitions are not taken from the source. They state, in the words of
  the specification, what the functions above are compared with.
\<close>

text \<open>The string \<open>q\<close> stands in \<open>s\<close> at index \<open>k\<close>.\<close>

definition occurs_at :: "string \<Rightarrow> string \<Rightarrow> nat \<Rightarrow> bool" where
  "occurs_at s q k = (k + length q \<le> length s \<and> take (length q) (drop k s) = q)"

text \<open>All indices at which \<open>q\<close> stands in \<open>s\<close>, in ascending order.\<close>

definition occurrences :: "string \<Rightarrow> string \<Rightarrow> nat list" where
  "occurrences s q = filter (occurs_at s q) [0..<Suc (length s)]"

text \<open>\<open>k\<close> is the first index at which \<open>q\<close> stands in \<open>s\<close>.\<close>

definition first_occurrence :: "string \<Rightarrow> string \<Rightarrow> nat \<Rightarrow> bool" where
  "first_occurrence s q k = (occurs_at s q k \<and> list_all (\<lambda>j. \<not> occurs_at s q j) [0..<k])"

text \<open>
  The window \<open>[idx - contextChars, idx + len(query) + contextChars]\<close> clamped to
  \<open>[0, len(haystack)]\<close>, as a pair of indices into the haystack \<open>h\<close>. The
  subtraction of natural numbers stops at 0: that is the clamp from below.
\<close>

definition window_start :: "string \<Rightarrow> nat \<Rightarrow> nat \<Rightarrow> nat" where
  "window_start h idx contextChars = min (length h) (idx - contextChars)"

definition window_end :: "string \<Rightarrow> string \<Rightarrow> nat \<Rightarrow> nat \<Rightarrow> nat" where
  "window_end h query idx contextChars = min (length h) (idx + length query + contextChars)"

text \<open>
  The text values of the text nodes of a tree, depth first (the "leaf text values" of
  the overview of the specification).
\<close>

fun text_leaves :: "rtnode option \<Rightarrow> string list" where
  "text_leaves None = []"
| "text_leaves (Some (RTNode ty v c)) =
     (if ty = Str ''text'' then [case v of Str s \<Rightarrow> s | _ \<Rightarrow> []]
      else case c of
        Some children \<Rightarrow> concat (map text_leaves children)
      | None \<Rightarrow> [])"

text \<open>
  The values at the childless positions of a tree, depth first: a text node counts with
  its value; a missing node, a node without a content array and a node with an empty
  content array count with the empty string.
\<close>

fun leaf_values :: "rtnode option \<Rightarrow> string list" where
  "leaf_values None = [[]]"
| "leaf_values (Some (RTNode ty v c)) =
     (if ty = Str ''text'' then [case v of Str s \<Rightarrow> s | _ \<Rightarrow> []]
      else case c of
        Some children \<Rightarrow> (if children = [] then [[]] else concat (map leaf_values children))
      | None \<Rightarrow> [[]])"

text \<open>
  The generic Record Matcher of the specification. A field specification is the list of
  the accessors of a shape, each giving the resolved plain text of one field (a rich
  field is flattened by its accessor). A record is retained iff at least one resolved
  field matches; the snippet is the first one, in the order of the list, that the
  extractor finds.
\<close>

definition retained_by ::
  "(string \<Rightarrow> string) \<Rightarrow> ('r \<Rightarrow> textval) list \<Rightarrow> string \<Rightarrow> 'r list \<Rightarrow> 'r list" where
  "retained_by toLowerCase fieldSpec query records =
     filter (\<lambda>r. list_ex (\<lambda>field. matchesQuery toLowerCase (field r) query) fieldSpec) records"

fun select_snippet ::
  "(string \<Rightarrow> string) \<Rightarrow> ('r \<Rightarrow> textval) list \<Rightarrow> string \<Rightarrow> 'r \<Rightarrow> string option" where
  "select_snippet toLowerCase [] query r = None"
| "select_snippet toLowerCase (field # fieldSpec) query r =
     (case extractSnippet toLowerCase (field r) query 150 of
        Some s \<Rightarrow> Some s
      | None \<Rightarrow> select_snippet toLowerCase fieldSpec query r)"

text \<open>The field specifications of the table in section 4.4, in priority order.\<close>

definition blog_post_fields :: "(ghost_post \<Rightarrow> textval) list" where
  "blog_post_fields =
     [post_title, post_excerpt, \<lambda>p. Str (bodyText_of_html (post_html p))]"

definition blog_page_fields :: "(ghost_page \<Rightarrow> textval) list" where
  "blog_page_fields = [page_title, \<lambda>p. Str (bodyText_of_html (page_html p))]"

definition learn_page_fields :: "(learn_page \<Rightarrow> textval) list" where
  "learn_page_fields =
     [lp_title, lp_metaTitle, lp_metaDescription,
      \<lambda>item. Str (extractTextFromRichText (json_of (lp_content item)))]"

definition case_study_fields :: "(case_study \<Rightarrow> textval) list" where
  "case_study_fields =
     [cs_name, cs_metaTitle, cs_metaDescription, cs_overview, cs_quoteText, cs_useCase,
      cs_impact, \<lambda>item. Str (extractTextFromRichText (json_of (cs_content item)))]"

definition event_page_fields :: "(internal_event \<Rightarrow> textval) list" where
  "event_page_fields =
     [ie_heroTitle, ie_metaDescription,
      \<lambda>evt. Str (extractTextFromRichText (json_of (ie_additionalEventDetails evt))),
      \<lambda>evt. Str (extractTextFromRichText (json_of (ie_agenda evt)))]"

section \<open>Example inputs\<close>

text \<open>A haystack of 453 characters with the query \<open>q\<close> exactly once, at index 151.\<close>

definition long_haystack :: string where
  "long_haystack = replicate 151 CHR ''x'' @ ''q'' @ replicate 301 CHR ''y''"

text \<open>A haystack of 304 characters with the query \<open>q\<close> exactly once, at index 2.\<close>

definition short_prefix_haystack :: string where
  "short_prefix_haystack = ''abQ'' @ replicate 301 CHR ''y''"

text \<open>
  A document with two text children \<open>a\<close> and \<open>b\<close> inside two levels of container
  nodes.
\<close>

definition nested_example :: "rtnode option" where
  "nested_example =
     Some (RTNode (Str ''document'') Undefined (Some
       [Some (RTNode (Str ''paragraph'') Undefined (Some
          [Some (RTNode (Str ''text'') (Str ''a'') None),
           Some (RTNode (Str ''text'') (Str ''b'') None)]))]))"

text \<open>
  A document with a horizontal rule, a node whose content array is empty, between two
  paragraphs.
\<close>

definition rule_example :: "rtnode option" where
  "rule_example =
     Some (RTNode (Str ''document'') Undefined (Some
       [Some (RTNode (Str ''paragraph'') Undefined (Some
          [Some (RTNode (Str ''text'') (Str ''a'') None)])),
        Some (RTNode (Str ''hr'') Undefined (Some [])),
        Some (RTNode (Str ''paragraph'') Undefined (Some
          [Some (RTNode (Str ''text'') (Str ''b'') None)]))]))"

text \<open>
  A blog post whose excerpt contains \<open>renewable\<close> and whose title and body do not, and
  a blog page whose title contains it and whose body does not.
\<close>

definition renewable_post :: ghost_post where
  "renewable_post =
     \<lparr> post_title = Str ''Energy outlook'',
       post_slug = Str ''energy-outlook'',
       post_excerpt = Str ''We explore renewable energy trends'',
       post_html = Str ''<p>Nothing on it here.</p>'',
       post_published_at = Str ''2024-01-01'',
       post_tags = Some [\<lparr> tag_name = Str ''energy'' \<rparr>] \<rparr>"

definition renewable_page :: ghost_page where
  "renewable_page =
     \<lparr> page_title = Str ''Renewable energy'',
       page_slug = Str ''about'',
       page_html = Str ''<p>About us</p>'' \<rparr>"

text \<open>
  An event page whose agenda contains \<open>renewable\<close>, in another case, and whose other
  fields do not.
\<close>

definition agenda_event :: internal_event where
  "agenda_event =
     \<lparr> ie_heroTitle = Str ''Annual Summit'',
       ie_metaDescription = Str ''Join us in May'',
       ie_url = Str ''summit'',
       ie_eventDate = Str ''2024-05-01'',
       ie_additionalEventDetails = None,
       ie_agenda = Some \<lparr> json =
         Some (RTNode (Str ''document'') Undefined (Some
           [Some (RTNode (Str ''paragraph'') Undefined (Some
              [Some (RTNode (Str ''text'') (Str ''Keynote on Renewable power'') None)]))])) \<rparr> \<rparr>"

section \<open>The search of the platform\<close>

text \<open>
  \<open>StringIndexOf\<close> returns the first index at which the search string stands, and
  \<open>-1\<close> iff it stands nowhere; so \<open>includes_str\<close> decides the contiguous-substring
  relation \<open>sublist\<close>.
\<close>

lemma StringIndexOf_not_found:
  "StringIndexOf s q i = - 1 \<longleftrightarrow> (\<forall>k\<ge>i. \<not> occurs_at s q k)"
proof (induction s q i rule: StringIndexOf.induct)
  case (1 s q i)
  show ?case
  proof (cases "length s < i + length q")
    case True
    then show ?thesis
      by (subst StringIndexOf.simps) (auto simp: occurs_at_def)
  next
    case False
    show ?thesis
    proof (cases "take (length q) (drop i s) = q")
      case True
      with False have "occurs_at s q i" by (simp add: occurs_at_def)
      moreover from True False have "StringIndexOf s q i = int i"
        by (subst StringIndexOf.simps) simp
      ultimately show ?thesis by auto
    next
      case neq: False
      with False have step: "StringIndexOf s q i = StringIndexOf s q (Suc i)"
        by (subst StringIndexOf.simps) simp
      from neq have ni: "\<not> occurs_at s q i" by (simp add: occurs_at_def)
      have "(\<forall>k\<ge>i. \<not> occurs_at s q k) \<longleftrightarrow> (\<forall>k\<ge>Suc i. \<not> occurs_at s q k)"
        using ni by (metis Suc_leD Suc_leI le_neq_implies_less)
      with "1.IH" [OF False neq] step show ?thesis by simp
    qed
  qed
qed

lemma StringIndexOf_found:
  "StringIndexOf s q i = int k \<longleftrightarrow>
     (i \<le> k \<and> occurs_at s q k \<and> (\<forall>j. i \<le> j \<and> j < k \<longrightarrow> \<not> occurs_at s q j))"
proof (induction s q i rule: StringIndexOf.induct)
  case (1 s q i)
  show ?case
  proof (cases "length s < i + length q")
    case True
    then have "StringIndexOf s q i = - 1"
      by (subst StringIndexOf.simps) simp
    moreover from True have "\<not> (i \<le> k \<and> occurs_at s q k)"
      by (auto simp: occurs_at_def)
    ultimately show ?thesis by auto
  next
    case False
    show ?thesis
    proof (cases "take (length q) (drop i s) = q")
      case True
      with False have occ: "occurs_at s q i" by (simp add: occurs_at_def)
      from True False have "StringIndexOf s q i = int i"
        by (subst StringIndexOf.simps) simp
      then have "StringIndexOf s q i = int k \<longleftrightarrow> k = i" by auto
      moreover have "(i \<le> k \<and> occurs_at s q k \<and> (\<forall>j. i \<le> j \<and> j < k \<longrightarrow> \<not> occurs_at s q j)) \<longleftrightarrow> k = i"
        using occ by (auto simp: le_less)
      ultimately show ?thesis by simp
    next
      case neq: False
      with False have step: "StringIndexOf s q i = StringIndexOf s q (Suc i)"
        by (subst StringIndexOf.simps) simp
      from neq have ni: "\<not> occurs_at s q i" by (simp add: occurs_at_def)
      have "(i \<le> k \<and> occurs_at s q k \<and> (\<forall>j. i \<le> j \<and> j < k \<longrightarrow> \<not> occurs_at s q j)) \<longleftrightarrow>
            (Suc i \<le> k \<and> occurs_at s q k \<and> (\<forall>j. Suc i \<le> j \<and> j < k \<longrightarrow> \<not> occurs_at s q j))"
        using ni by (metis Suc_leD Suc_leI le_neq_implies_less)
      with "1.IH" [OF False neq] step show ?thesis by simp
    qed
  qed
qed

lemma StringIndexOf_cases:
  "StringIndexOf s q i = - 1 \<or> (\<exists>k. StringIndexOf s q i = int k)"
proof (induction s q i rule: StringIndexOf.induct)
  case (1 s q i)
  show ?case
    by (subst (1 2) StringIndexOf.simps) (use "1.IH" in auto)
qed

lemma sublist_iff_occurs: "sublist q s \<longleftrightarrow> (\<exists>k. occurs_at s q k)"
proof
  assume "sublist q s"
  then obtain ps ss where "s = ps @ q @ ss" by (auto simp: sublist_def)
  then have "occurs_at s q (length ps)" by (simp add: occurs_at_def)
  then show "\<exists>k. occurs_at s q k" ..
next
  assume "\<exists>k. occurs_at s q k"
  then obtain k where k: "k + length q \<le> length s" "take (length q) (drop k s) = q"
    by (auto simp: occurs_at_def)
  have "s = take k s @ take (length q) (drop k s) @ drop (length q) (drop k s)"
    by (simp only: append_take_drop_id)
  with k show "sublist q s" by (metis sublist_appendI)
qed

lemma includes_str_iff_sublist: "includes_str s q \<longleftrightarrow> sublist q s"
  by (auto simp: includes_str_def StringIndexOf_not_found sublist_iff_occurs)

lemma indexOf_not_found_iff: "indexOf s q = - 1 \<longleftrightarrow> \<not> sublist q s"
  by (auto simp: indexOf_def StringIndexOf_not_found sublist_iff_occurs)

lemma first_occurrence_iff_indexOf: "first_occurrence s q k \<longleftrightarrow> indexOf s q = int k"
  by (auto simp: first_occurrence_def indexOf_def StringIndexOf_found list_all_iff)

lemma occurs_at_bound: "occurs_at s q k \<Longrightarrow> k < Suc (length s)"
  by (simp add: occurs_at_def)

lemma occurrences_single_first:
  assumes "occurrences s q = [i]"
  shows "first_occurrence s q i"
proof -
  from assms have set_eq: "{k \<in> set [0..<Suc (length s)]. occurs_at s q k} = {i}"
    unfolding occurrences_def by (metis set_filter list.simps(15) empty_set)
  then have occ: "occurs_at s q i" by blast
  have "\<not> occurs_at s q j" if "j < i" for j
  proof
    assume "occurs_at s q j"
    with occurs_at_bound [OF this] have "j \<in> {k \<in> set [0..<Suc (length s)]. occurs_at s q k}"
      by (simp del: upt_Suc)
    with set_eq have "j = i" by blast
    with that show False by simp
  qed
  with occ show ?thesis by (simp add: first_occurrence_def list_all_iff)
qed

lemma occurs_at_single: "occurs_at s [c] k \<longleftrightarrow> k < length s \<and> s ! k = c"
proof (cases "k < length s")
  case True
  then have "drop k s = s ! k # drop (Suc k) s" by (simp add: Cons_nth_drop_Suc)
  with True show ?thesis by (simp add: occurs_at_def)
next
  case False
  then show ?thesis by (simp add: occurs_at_def)
qed

lemma occurrences_singleI:
  assumes "occurs_at s q i" and "\<And>k. occurs_at s q k \<Longrightarrow> k = i"
  shows "occurrences s q = [i]"
proof -
  let ?n = "Suc (length s)"
  from assms(1) have i: "i < ?n" by (rule occurs_at_bound)
  then have split: "[0..<?n] = [0..<i] @ i # [Suc i..<?n]"
    by (metis upt_conv_Cons upt_add_eq_append le0 less_imp_le_nat le_add_diff_inverse plus_nat.add_0)
  have "filter (occurs_at s q) [0..<i] = []" "filter (occurs_at s q) [Suc i..<?n] = []"
    using assms(2) by (auto simp: filter_empty_conv simp del: upt_Suc)
  with assms(1) show ?thesis
    unfolding occurrences_def split by simp
qed

section \<open>The matcher and the snippet extractor, case by case\<close>

lemma extractPlainTextSnippet_conv:
  "extractPlainTextSnippet toLowerCase text query contextChars =
   extractSnippet toLowerCase text query contextChars"
  by (simp only: extractSnippet_def extractPlainTextSnippet_def)

lemma matchesQuery_Str:
  "matchesQuery toLowerCase (Str h) query \<longleftrightarrow> h \<noteq> [] \<and> sublist (toLowerCase query) (toLowerCase h)"
  by (simp add: matchesQuery_def includes_str_iff_sublist)

lemma matchesQuery_absent:
  "\<not> matchesQuery toLowerCase Undefined query" "\<not> matchesQuery toLowerCase Null query"
  by (simp_all add: matchesQuery_def)

lemma extractSnippet_absent:
  "extractSnippet toLowerCase Undefined query c = None"
  "extractSnippet toLowerCase Null query c = None"
  "extractSnippet toLowerCase (Str []) query c = None"
  by (simp_all add: extractSnippet_def)

lemma extractSnippet_Str_None:
  "extractSnippet toLowerCase (Str h) query c = None \<longleftrightarrow>
     h = [] \<or> \<not> sublist (toLowerCase query) (toLowerCase h)"
  by (simp add: extractSnippet_def Let_def indexOf_not_found_iff)

lemma extractPlainTextSnippet_None_iff:
  "extractPlainTextSnippet toLowerCase text query c = None \<longleftrightarrow>
     \<not> matchesQuery toLowerCase text query"
  by (cases "text")
    (simp_all add: extractPlainTextSnippet_conv extractSnippet_absent matchesQuery_absent
      extractSnippet_Str_None matchesQuery_Str)

lemma slice_nonneg:
  "slice s (int a) (int b) = take (min b (length s) - min a (length s)) (drop (min a (length s)) s)"
proof -
  have f: "min (int a) (int (length s)) = int (min a (length s))"
    and t: "min (int b) (int (length s)) = int (min b (length s))"
    by simp_all
  have d: "nat (int (min b (length s)) - int (min a (length s))) = min b (length s) - min a (length s)"
    by linarith
  have "slice s (int a) (int b) =
        take (nat (min (int b) (int (length s)) - min (int a) (int (length s))))
             (drop (nat (min (int a) (int (length s)))) s)"
    unfolding slice_def Let_def by simp
  also have "\<dots> = take (min b (length s) - min a (length s)) (drop (min a (length s)) s)"
    unfolding f t d by simp
  finally show ?thesis .
qed

lemma extractSnippet_unfold:
  assumes "h \<noteq> []" and "indexOf (toLowerCase h) (toLowerCase query) = int k"
  shows "extractSnippet toLowerCase (Str h) query c =
           Some ((if max 0 (int k - int c) > 0 then ellipsis else []) @
                 slice h (max 0 (int k - int c))
                         (min (int (length h)) (int k + int (length query) + int c)) @
                 (if min (int (length h)) (int k + int (length query) + int c) < int (length h)
                  then ellipsis else []))"
proof -
  have nf: "int k \<noteq> - 1" by simp
  show ?thesis
    by (simp add: extractSnippet_def Let_def assms del: of_nat_diff)
qed

lemma extractSnippet_found:
  assumes "h \<noteq> []" and "indexOf (toLowerCase h) (toLowerCase query) = int k"
  shows "extractSnippet toLowerCase (Str h) query c =
           Some ((if 0 < window_start h k c then ellipsis else []) @
                 take (window_end h query k c - window_start h k c) (drop (window_start h k c) h) @
                 (if window_end h query k c < length h then ellipsis else []))"
proof -
  have st: "max 0 (int k - int c) = int (k - c)" by linarith
  have fi: "min (int (length h)) (int k + int (length query) + int c) =
            int (min (length h) (k + length query + c))" by linarith
  have m: "min (min (length h) (k + length query + c)) (length h) = window_end h query k c"
    by (simp add: window_end_def)
  have m': "min (k - c) (length h) = window_start h k c"
    by (simp add: window_start_def min.commute)
  have sl: "slice h (int (k - c)) (int (min (length h) (k + length query + c))) =
            take (window_end h query k c - window_start h k c) (drop (window_start h k c) h)"
    unfolding slice_nonneg m m' ..
  have pos: "0 < int (k - c) \<longleftrightarrow> 0 < window_start h k c"
    using assms(1) by (simp add: window_start_def)
  have lt: "int (min (length h) (k + length query + c)) < int (length h) \<longleftrightarrow>
            window_end h query k c < length h"
    by (simp add: window_end_def)
  show ?thesis
    unfolding extractSnippet_unfold [OF assms] st fi sl pos lt ..
qed

text \<open>
  A snippet is never the empty string: it carries an ellipsis, or it is the whole
  haystack, which is not empty.
\<close>

lemma extractSnippet_nonempty:
  assumes "extractSnippet toLowerCase text query c = Some s"
  shows "s \<noteq> []"
proof -
  obtain h where h: "text = Str h" "h \<noteq> []"
  proof (cases "text")
    case Undefined
    with assms show ?thesis by (simp add: extractSnippet_absent)
  next
    case Null
    with assms show ?thesis by (simp add: extractSnippet_absent)
  next
    case (Str t)
    with assms have "t \<noteq> []" by (auto simp: extractSnippet_absent)
    with Str that show ?thesis by simp
  qed
  from assms h have some: "extractSnippet toLowerCase (Str h) query c = Some s" by simp
  then have "extractSnippet toLowerCase (Str h) query c \<noteq> None" by simp
  then have "sublist (toLowerCase query) (toLowerCase h)"
    by (simp add: extractSnippet_Str_None)
  then have "indexOf (toLowerCase h) (toLowerCase query) \<noteq> - 1"
    by (simp add: indexOf_not_found_iff)
  then obtain k where k: "indexOf (toLowerCase h) (toLowerCase query) = int k"
    using StringIndexOf_cases [of "toLowerCase h" "toLowerCase query" 0]
    unfolding indexOf_def by auto
  define ws where "ws = window_start h k c"
  define we where "we = window_end h query k c"
  have "Some s = Some ((if 0 < ws then ellipsis else []) @ take (we - ws) (drop ws h) @
               (if we < length h then ellipsis else []))"
    unfolding ws_def we_def some [symmetric] by (rule extractSnippet_found [OF h(2) k])
  then have s: "s = (if 0 < ws then ellipsis else []) @ take (we - ws) (drop ws h) @
               (if we < length h then ellipsis else [])"
    by (simp only: option.inject)
  have le: "we \<le> length h" by (simp add: we_def window_end_def)
  show ?thesis
  proof (cases "0 < ws")
    case True
    then show ?thesis unfolding s by (simp add: ellipsis_def)
  next
    case ws0: False
    show ?thesis
    proof (cases "we < length h")
      case True
      then show ?thesis unfolding s by (simp add: ellipsis_def)
    next
      case False
      with le ws0 have "ws = 0" "we = length h" by simp_all
      then show ?thesis unfolding s using h(2) by simp
    qed
  qed
qed

section \<open>The contract of the matcher\<close>

text \<open>
  C3 says that \<open>matchesQuery\<close> returns true for every present haystack, the empty
  string included, and every query it contains, the empty query included. The empty
  haystack contains the empty query, and \<open>matchesQuery\<close> returns false for it: the
  guard \<open>!text\<close> treats the empty string like a missing value.
\<close>

theorem matchesQuery_empty_haystack_counterexample:
  "sublist (ascii_lower []) (ascii_lower []) \<and> \<not> matchesQuery ascii_lower (Str []) []"
  by (simp add: ascii_lower_def matchesQuery_def)

text \<open>
  C3, amended: \<open>matchesQuery\<close> returns false when the haystack is \<open>undefined\<close> or
  \<open>null\<close>, and for a string haystack it returns true iff the haystack is not empty
  and its lowercase form contains the lowercase form of the query as a contiguous
  substring.
\<close>

theorem matchesQuery_spec:
  "\<not> matchesQuery toLowerCase Undefined query \<and>
   \<not> matchesQuery toLowerCase Null query \<and>
   (matchesQuery toLowerCase (Str h) query \<longleftrightarrow>
      h \<noteq> [] \<and> sublist (toLowerCase query) (toLowerCase h))"
  by (simp add: matchesQuery_absent matchesQuery_Str)

section \<open>The contract of the snippet extractor\<close>

text \<open>
  C4 says that the extractor returns absent iff the haystack is absent or the query is
  not found. For the empty haystack and the empty query the query is found, at index 0,
  and the extractor returns absent.
\<close>

theorem extractSnippet_empty_haystack_counterexample:
  "first_occurrence (ascii_lower []) (ascii_lower []) 0 \<and>
   extractSnippet ascii_lower (Str []) [] 150 = None"
  by (simp add: ascii_lower_def first_occurrence_def occurs_at_def extractSnippet_def)

text \<open>
  C4, amended: for every non-empty haystack \<open>h\<close> and query found at the first
  lowercase-occurrence index \<open>idx\<close>, the extractor returns the slice of the original
  \<open>h\<close> over the window \<open>[idx - contextChars, idx + len(query) + contextChars]\<close>
  clamped to \<open>[0, len(h)]\<close>, prefixed with the ellipsis iff the window start is above 0
  and suffixed with it iff the window end is below \<open>len(h)\<close>. It returns absent iff
  the haystack is absent or empty, or the query is not found.
\<close>

theorem extractSnippet_window:
  "(h \<noteq> [] \<and> first_occurrence (toLowerCase h) (toLowerCase query) idx \<longrightarrow>
      extractSnippet toLowerCase (Str h) query contextChars =
        Some ((if 0 < window_start h idx contextChars then ellipsis else []) @
              take (window_end h query idx contextChars - window_start h idx contextChars)
                   (drop (window_start h idx contextChars) h) @
              (if window_end h query idx contextChars < length h then ellipsis else []))) \<and>
   (extractSnippet toLowerCase text query contextChars = None \<longleftrightarrow>
      text = Undefined \<or> text = Null \<or> text = Str [] \<or>
      (\<exists>t. text = Str t \<and> \<not> sublist (toLowerCase query) (toLowerCase t)))"
proof (intro conjI impI)
  assume "h \<noteq> [] \<and> first_occurrence (toLowerCase h) (toLowerCase query) idx"
  then show "extractSnippet toLowerCase (Str h) query contextChars =
        Some ((if 0 < window_start h idx contextChars then ellipsis else []) @
              take (window_end h query idx contextChars - window_start h idx contextChars)
                   (drop (window_start h idx contextChars) h) @
              (if window_end h query idx contextChars < length h then ellipsis else []))"
    by (simp add: extractSnippet_found first_occurrence_iff_indexOf)
next
  show "extractSnippet toLowerCase text query contextChars = None \<longleftrightarrow>
      text = Undefined \<or> text = Null \<or> text = Str [] \<or>
      (\<exists>t. text = Str t \<and> \<not> sublist (toLowerCase query) (toLowerCase t))"
    by (cases "text") (auto simp: extractSnippet_absent extractSnippet_Str_None)
qed

text \<open>
  The window theorem at a haystack of 19 characters, with 3 characters of context.
\<close>

theorem extractSnippet_window_witness:
  "first_occurrence (ascii_lower ''The Quick Brown Fox'') (ascii_lower ''BROWN'') 10 \<and>
   extractSnippet ascii_lower (Str ''The Quick Brown Fox'') ''BROWN'' 3 = Some ''...ck Brown Fo...''"
proof -
  have ne: "''The Quick Brown Fox'' \<noteq> []" by simp
  have fo: "first_occurrence (ascii_lower ''The Quick Brown Fox'') (ascii_lower ''BROWN'') 10"
    by code_simp
  have val: "(if 0 < window_start ''The Quick Brown Fox'' 10 3 then ellipsis else []) @
        take (window_end ''The Quick Brown Fox'' ''BROWN'' 10 3 - window_start ''The Quick Brown Fox'' 10 3)
             (drop (window_start ''The Quick Brown Fox'' 10 3) ''The Quick Brown Fox'') @
        (if window_end ''The Quick Brown Fox'' ''BROWN'' 10 3 < length ''The Quick Brown Fox''
         then ellipsis else []) = ''...ck Brown Fo...''"
    by code_simp
  from extractSnippet_window [of "''The Quick Brown Fox''" ascii_lower "''BROWN''" 10 3]
  have "extractSnippet ascii_lower (Str ''The Quick Brown Fox'') ''BROWN'' 3 =
          Some ''...ck Brown Fo...''"
    using ne fo unfolding val by blast
  with fo show ?thesis by simp
qed

section \<open>The containment test and the snippet test agree\<close>

text \<open>
  C5: for all haystacks (present or absent) and all queries, \<open>matchesQuery\<close> is true
  iff the snippet extractor returns a snippet. This holds for either extractor and for
  every value of \<open>contextChars\<close>.
\<close>

theorem matchesQuery_iff_extractSnippet:
  "(matchesQuery toLowerCase text query \<longleftrightarrow>
      extractSnippet toLowerCase text query contextChars \<noteq> None) \<and>
   (matchesQuery toLowerCase text query \<longleftrightarrow>
      extractPlainTextSnippet toLowerCase text query contextChars \<noteq> None)"
proof (cases "text")
  case Undefined
  then show ?thesis
    by (simp add: matchesQuery_absent extractSnippet_absent extractPlainTextSnippet_conv)
next
  case Null
  then show ?thesis
    by (simp add: matchesQuery_absent extractSnippet_absent extractPlainTextSnippet_conv)
next
  case (Str h)
  then show ?thesis
    by (simp add: matchesQuery_Str extractSnippet_Str_None extractPlainTextSnippet_conv)
qed

section \<open>The two snippet extractors agree\<close>

text \<open>
  C10: \<open>extractSnippet\<close> (used by the Ghost tools) and \<open>extractPlainTextSnippet\<close>
  (used by the Contentful tools) are extensionally equal: they return the same result
  for every haystack, every query and every value of \<open>contextChars\<close>.
\<close>

theorem extractSnippet_eq_extractPlainTextSnippet:
  "extractSnippet toLowerCase text query contextChars =
   extractPlainTextSnippet toLowerCase text query contextChars"
  unfolding extractSnippet_def extractPlainTextSnippet_def by (rule refl)

section \<open>Ellipses of a snippet in a long haystack\<close>

lemma ascii_lower_append: "ascii_lower (xs @ ys) = ascii_lower xs @ ascii_lower ys"
  by (simp add: ascii_lower_def)

lemma ascii_lower_long_haystack: "ascii_lower long_haystack = long_haystack"
  by (simp add: ascii_lower_def long_haystack_def)

lemma occurs_at_long_haystack: "occurs_at long_haystack ''q'' k \<longleftrightarrow> k = 151"
  by (auto simp: occurs_at_single long_haystack_def nth_append nth_Cons')

lemma ascii_lower_short_prefix_haystack:
  "ascii_lower short_prefix_haystack = ''abq'' @ replicate 301 CHR ''y''"
proof -
  have "ascii_lower ''abQ'' = ''abq''" by code_simp
  moreover have "ascii_lower (replicate 301 CHR ''y'') = replicate 301 CHR ''y''"
    by (simp add: ascii_lower_def)
  ultimately show ?thesis
    by (simp only: short_prefix_haystack_def ascii_lower_append)
qed

lemma occurs_at_short_prefix_haystack:
  "occurs_at (''abq'' @ replicate 301 CHR ''y'') ''q'' k \<longleftrightarrow> k = 2"
  by (auto simp: occurs_at_single nth_Cons' nth_append)

lemma occurrences_short_prefix_haystack:
  "occurrences (''abq'' @ replicate 301 CHR ''y'') ''q'' = [2]"
  by (rule occurrences_singleI) (simp_all only: occurs_at_short_prefix_haystack)

text \<open>
  C2 says that the snippet has no leading ellipsis whenever the haystack contains the
  query exactly once, at index \<open>i\<close>, and is longer than \<open>i + len(query) + 300\<close>. In
  \<open>long_haystack\<close> the query stands once, at index 151, the haystack is longer than
  \<open>151 + 1 + 300\<close>, and the snippet starts with the ellipsis.
\<close>

theorem extractSnippet_ellipsis_counterexample:
  "occurrences (ascii_lower long_haystack) (ascii_lower ''q'') = [151] \<and>
   151 + length ''q'' + 300 < length long_haystack \<and>
   extractSnippet ascii_lower (Str long_haystack) ''q'' 150 =
     Some (''...'' @ replicate 150 CHR ''x'' @ ''q'' @ replicate 150 CHR ''y'' @ ''...'')"
proof -
  have lq: "ascii_lower ''q'' = ''q''" by (simp add: ascii_lower_def)
  have occ: "occurrences long_haystack ''q'' = [151]"
    by (rule occurrences_singleI) (simp_all add: occurs_at_long_haystack)
  have len: "length long_haystack = 453" by (simp add: long_haystack_def)
  have ne: "long_haystack \<noteq> []" using len by auto
  have idx: "indexOf (ascii_lower long_haystack) (ascii_lower ''q'') = int 151"
    using occurrences_single_first [OF occ]
    by (simp add: first_occurrence_iff_indexOf ascii_lower_long_haystack lq)
  have ws: "window_start long_haystack 151 150 = 1" by (simp add: window_start_def len)
  have we: "window_end long_haystack ''q'' 151 150 = 302" by (simp add: window_end_def len)
  have sl: "take (302 - 1) (drop 1 long_haystack) =
            replicate 150 CHR ''x'' @ ''q'' @ replicate 150 CHR ''y''"
    by (simp add: long_haystack_def)
  have "extractSnippet ascii_lower (Str long_haystack) ''q'' 150 =
     Some (''...'' @ replicate 150 CHR ''x'' @ ''q'' @ replicate 150 CHR ''y'' @ ''...'')"
    unfolding extractSnippet_found [OF ne idx] ws we sl by (simp add: len ellipsis_def)
  with occ len show ?thesis by (simp add: ascii_lower_long_haystack lq)
qed

text \<open>
  C2, amended: for every haystack \<open>h\<close> containing the query exactly once at index
  \<open>i\<close> (case-insensitively, as the extractor searches), with
  \<open>len(h) > i + len(query) + 300\<close>, the snippet returned with the default context of
  150 has a leading ellipsis iff \<open>i > 150\<close>, and a trailing ellipsis iff
  \<open>i + len(query) + 150 < len(h)\<close>.
\<close>

theorem extractSnippet_ellipsis:
  assumes "occurrences (toLowerCase h) (toLowerCase query) = [i]"
    and "i + length query + 300 < length h"
  shows "extractSnippet toLowerCase (Str h) query 150 =
           Some ((if 150 < i then ellipsis else []) @
                 take (i + length query + 150 - (i - 150)) (drop (i - 150) h) @
                 (if i + length query + 150 < length h then ellipsis else []))"
proof -
  from assms(2) have ne: "h \<noteq> []" by auto
  have idx: "indexOf (toLowerCase h) (toLowerCase query) = int i"
    using occurrences_single_first [OF assms(1)] by (simp add: first_occurrence_iff_indexOf)
  have ws: "window_start h i 150 = i - 150"
    using assms(2) by (simp add: window_start_def)
  have we: "window_end h query i 150 = i + length query + 150"
    using assms(2) by (simp add: window_end_def)
  have pos: "0 < i - 150 \<longleftrightarrow> 150 < i" by auto
  show ?thesis
    unfolding extractSnippet_found [OF ne idx] ws we pos ..
qed

text \<open>
  The theorem at \<open>short_prefix_haystack\<close>: no leading ellipsis, a trailing one.
\<close>

theorem extractSnippet_ellipsis_witness:
  "occurrences (ascii_lower short_prefix_haystack) (ascii_lower ''q'') = [2] \<and>
   2 + length ''q'' + 300 < length short_prefix_haystack \<and>
   extractSnippet ascii_lower (Str short_prefix_haystack) ''q'' 150 =
     Some (''abQ'' @ replicate 150 CHR ''y'' @ ''...'')"
proof -
  have lq: "ascii_lower ''q'' = ''q''" by code_simp
  have a: "occurrences (ascii_lower short_prefix_haystack) (ascii_lower ''q'') = [2]"
    by (simp only: ascii_lower_short_prefix_haystack lq occurrences_short_prefix_haystack)
  have b: "2 + length ''q'' + 300 < length short_prefix_haystack"
    by (simp add: short_prefix_haystack_def)
  have c: "(if 150 < (2::nat) then ellipsis else []) @
        take (2 + length ''q'' + 150 - (2 - 150)) (drop (2 - 150) short_prefix_haystack) @
        (if 2 + length ''q'' + 150 < length short_prefix_haystack then ellipsis else []) =
        ''abQ'' @ replicate 150 CHR ''y'' @ ''...''"
    by (simp add: short_prefix_haystack_def ellipsis_def)
  from extractSnippet_ellipsis [OF a b] have
    "extractSnippet ascii_lower (Str short_prefix_haystack) ''q'' 150 =
       Some (''abQ'' @ replicate 150 CHR ''y'' @ ''...'')"
    unfolding c .
  with a b show ?thesis by simp
qed

section \<open>The rich-text flattener\<close>

lemma join_append:
  "xs \<noteq> [] \<Longrightarrow> ys \<noteq> [] \<Longrightarrow> join sep (xs @ ys) = join sep xs @ sep @ join sep ys"
proof (induction sep xs rule: join.induct)
  case (1 sep)
  then show ?case by simp
next
  case (2 sep x)
  then show ?case by (cases ys) simp_all
next
  case (3 sep x y ys')
  then show ?case by simp
qed

lemma join_concat:
  assumes "\<forall>xs \<in> set xss. xs \<noteq> []"
  shows "join sep (concat xss) = join sep (map (join sep) xss)"
  using assms
proof (induction xss rule: induct_list012)
  case 1
  then show ?case by simp
next
  case (2 xs)
  then show ?case by simp
next
  case (3 xs ys rest)
  then have "xs \<noteq> []" and "concat (ys # rest) \<noteq> []" by auto
  then have "join sep (xs @ concat (ys # rest)) =
             join sep xs @ sep @ join sep (concat (ys # rest))"
    by (rule join_append)
  with 3 show ?case by simp
qed

lemma leaf_values_nonempty: "leaf_values node \<noteq> []"
proof (induction node rule: leaf_values.induct)
  case 1
  then show ?case by simp
next
  case (2 ty v c)
  show ?case
  proof (cases "ty = Str ''text''")
    case True
    then show ?thesis by simp
  next
    case False
    show ?thesis
    proof (cases c)
      case None
      with False show ?thesis by simp
    next
      case (Some children)
      show ?thesis
      proof (cases "children = []")
        case True
        with False Some show ?thesis by simp
      next
        case ne: False
        then obtain ch rest where ch: "children = ch # rest" by (cases children) auto
        from "2.IH" [OF False Some ne, of ch] ch have "leaf_values ch \<noteq> []" by simp
        with False Some ch show ?thesis by simp
      qed
    qed
  qed
qed

text \<open>
  C6: the flattener satisfies its contract on every input. A text node yields its
  literal value, and the empty string if the value is missing; any other node with a
  content sequence yields the space-joined flattening of each child, in the original
  order; any other node yields the empty string; absent input yields the empty string.
  Consequently two text children \<open>a\<close> and \<open>b\<close> nested inside two levels of container
  nodes flatten to \<open>a b\<close>.
\<close>

theorem extractTextFromRichText_contract:
  "extractTextFromRichText None = [] \<and>
   extractTextFromRichText (Some (RTNode (Str ''text'') (Str s) c)) = s \<and>
   extractTextFromRichText (Some (RTNode (Str ''text'') Undefined c)) = [] \<and>
   extractTextFromRichText (Some (RTNode (Str ''text'') Null c)) = [] \<and>
   (ty \<noteq> Str ''text'' \<longrightarrow>
      extractTextFromRichText (Some (RTNode ty v (Some children))) =
        join '' '' (map extractTextFromRichText children)) \<and>
   (ty \<noteq> Str ''text'' \<longrightarrow> extractTextFromRichText (Some (RTNode ty v None)) = []) \<and>
   extractTextFromRichText nested_example = ''a b''"
  by (simp add: nested_example_def)

text \<open>The contract at a paragraph with a missing child, and at a node without content.\<close>

theorem extractTextFromRichText_contract_witness:
  "extractTextFromRichText
     (Some (RTNode (Str ''paragraph'') Undefined
        (Some [Some (RTNode (Str ''text'') (Str ''a'') None), None,
               Some (RTNode (Str ''text'') (Str ''b'') None)]))) = ''a  b'' \<and>
   extractTextFromRichText (Some (RTNode (Str ''hr'') Undefined None)) = []"
proof -
  have ne: "Str ''paragraph'' \<noteq> Str ''text''" "Str ''hr'' \<noteq> Str ''text''" by simp_all
  have "extractTextFromRichText
     (Some (RTNode (Str ''paragraph'') Undefined
        (Some [Some (RTNode (Str ''text'') (Str ''a'') None), None,
               Some (RTNode (Str ''text'') (Str ''b'') None)]))) =
     join '' '' (map extractTextFromRichText
        [Some (RTNode (Str ''text'') (Str ''a'') None), None,
         Some (RTNode (Str ''text'') (Str ''b'') None)])"
    using extractTextFromRichText_contract [of _ _ "Str ''paragraph''" Undefined] ne(1) by blast
  moreover have "extractTextFromRichText (Some (RTNode (Str ''hr'') Undefined None)) = []"
    using extractTextFromRichText_contract [of _ _ "Str ''hr''" Undefined] ne(2) by blast
  ultimately show ?thesis by simp
qed

text \<open>
  C7 says that the output is the depth-first sequence of the leaf text values joined
  with a single space, however containers and empty children are interleaved. In
  \<open>rule_example\<close> a node with an empty content array stands between the paragraphs of
  \<open>a\<close> and \<open>b\<close>: the leaf text values joined with a single space are \<open>a b\<close>, and the
  flattener puts two spaces between them.
\<close>

theorem extractTextFromRichText_extra_space_counterexample:
  "extractTextFromRichText rule_example = ''a  b'' \<and>
   join '' '' (text_leaves rule_example) = ''a b''"
  by (simp add: rule_example_def)

text \<open>
  C7, amended: for every rich-text tree, the output of the flattener equals the
  depth-first sequence of the values at the childless positions of the tree joined with
  a single space, where a text node counts with its value and a missing child, a node
  without content and a node with an empty content sequence count with the empty
  string. Two adjacent text values are therefore separated by one space more than the
  number of such empty positions between them.
\<close>

theorem extractTextFromRichText_leaf_values:
  "extractTextFromRichText node = join '' '' (leaf_values node)"
proof (induction node rule: extractTextFromRichText.induct)
  case 1
  show ?case by simp
next
  case (2 ty v c)
  show ?case
  proof (cases "ty = Str ''text''")
    case True
    then show ?thesis by simp
  next
    case False
    show ?thesis
    proof (cases c)
      case None
      with False show ?thesis by simp
    next
      case (Some children)
      have IH: "extractTextFromRichText ch = join '' '' (leaf_values ch)"
        if "ch \<in> set children" for ch
        using "2.IH" [OF False Some that] .
      show ?thesis
      proof (cases "children = []")
        case True
        with False Some show ?thesis by simp
      next
        case ne: False
        have m: "map extractTextFromRichText children =
              map (join '' '') (map leaf_values children)"
          using IH by simp
        have "join '' '' (concat (map leaf_values children)) =
              join '' '' (map (join '' '') (map leaf_values children))"
          by (rule join_concat) (simp add: leaf_values_nonempty)
        then have "join '' '' (map extractTextFromRichText children) =
              join '' '' (concat (map leaf_values children))"
          by (simp only: m)
        with False Some ne show ?thesis by simp
      qed
    qed
  qed
qed

section \<open>The record matchers\<close>

text \<open>
  Each tool keeps the records that the generic matcher keeps for the field list of its
  shape, in the same order.
\<close>

lemma subseq_filter_mono:
  assumes "\<And>x. P x \<Longrightarrow> Q x"
  shows "subseq (filter P xs) (filter Q xs)"
proof -
  have "filter P xs = filter P (filter Q xs)"
    using assms by (auto intro: filter_cong)
  then show ?thesis by (metis subseq_filter_left)
qed

lemma search_blog_posts_retained:
  "\<exists>f. search_blog_posts toLowerCase posts query =
         map f (retained_by toLowerCase blog_post_fields query posts)"
  unfolding search_blog_posts_def retained_by_def blog_post_fields_def Let_def
  by (rule exI, rule arg_cong2 [where f = map, OF refl]) (simp add: disj_ac)

lemma search_blog_pages_retained:
  "\<exists>f. search_blog_pages toLowerCase pages query =
         map f (retained_by toLowerCase blog_page_fields query pages)"
  unfolding search_blog_pages_def retained_by_def blog_page_fields_def Let_def
  by (rule exI, rule arg_cong2 [where f = map, OF refl]) (simp add: disj_ac)

lemma search_learn_pages_retained:
  "\<exists>f. search_learn_pages toLowerCase items query =
         map f (retained_by toLowerCase learn_page_fields query items)"
  unfolding search_learn_pages_def retained_by_def learn_page_fields_def Let_def
  by (rule exI, rule arg_cong2 [where f = map, OF refl]) (simp add: disj_ac)

lemma search_case_studies_retained:
  "\<exists>f. search_case_studies toLowerCase items query =
         map f (retained_by toLowerCase case_study_fields query items)"
  unfolding search_case_studies_def retained_by_def case_study_fields_def Let_def
  by (rule exI, rule arg_cong2 [where f = map, OF refl]) (simp add: disj_ac)

lemma matchedInternal_retained:
  "\<exists>f. matchedInternal toLowerCase internalEvents query =
         map f (retained_by toLowerCase event_page_fields query internalEvents)"
  unfolding matchedInternal_def retained_by_def event_page_fields_def Let_def
  by (rule exI, rule arg_cong2 [where f = map, OF refl]) (simp add: disj_ac)

text \<open>
  For the Contentful tools the chain of \<open>||\<close> selects the snippet of the first field,
  in priority order, in which the extractor finds the query.
\<close>

lemma or_snippet_None [simp]: "or_snippet None b = b"
  by (simp add: or_snippet_def)

lemma or_snippet_extract:
  "or_snippet (extractSnippet toLowerCase text query c) b =
     (case extractSnippet toLowerCase text query c of Some s \<Rightarrow> Some s | None \<Rightarrow> b)"
  by (auto simp: or_snippet_def split: option.splits dest: extractSnippet_nonempty)

lemma select_snippet_Cons_or:
  "select_snippet toLowerCase (field # fieldSpec) query r =
     or_snippet (extractSnippet toLowerCase (field r) query 150)
       (select_snippet toLowerCase fieldSpec query r)"
  by (simp add: or_snippet_extract)

lemma or_snippet_extract_None:
  "or_snippet (extractSnippet toLowerCase text query c) None =
     extractSnippet toLowerCase text query c"
  by (simp add: or_snippet_extract split: option.splits)

lemma search_learn_pages_snippet_priority:
  "map lpm_matched_snippet (search_learn_pages toLowerCase items query) =
   map (select_snippet toLowerCase learn_page_fields query)
     (retained_by toLowerCase learn_page_fields query items)"
  by (simp add: search_learn_pages_def retained_by_def learn_page_fields_def Let_def
      extractPlainTextSnippet_conv select_snippet_Cons_or or_snippet_extract_None comp_def
      del: select_snippet.simps(2))

lemma search_case_studies_snippet_priority:
  "map csm_matched_snippet (search_case_studies toLowerCase items query) =
   map (select_snippet toLowerCase case_study_fields query)
     (retained_by toLowerCase case_study_fields query items)"
  by (simp add: search_case_studies_def retained_by_def case_study_fields_def Let_def
      extractPlainTextSnippet_conv select_snippet_Cons_or or_snippet_extract_None comp_def
      del: select_snippet.simps(2))

lemma matchedInternal_snippet_priority:
  "map em_matched_snippet (matchedInternal toLowerCase internalEvents query) =
   map (select_snippet toLowerCase event_page_fields query)
     (retained_by toLowerCase event_page_fields query internalEvents)"
  by (simp add: matchedInternal_def retained_by_def event_page_fields_def Let_def
      extractPlainTextSnippet_conv select_snippet_Cons_or or_snippet_extract_None comp_def
      del: select_snippet.simps(2))

text \<open>
  C1: for every retained record the snippet is that of the first field, in the priority
  order of the shape, in which the extractor finds the query; a blog post that matches
  only in its excerpt, or a blog post or page that matches only in its title, gets its
  snippet from that field. The handlers of the two Ghost tools extract the snippet from
  the body only: \<open>renewable_post\<close> and \<open>renewable_page\<close> are retained with no snippet,
  where the selection by priority gives the excerpt and the title.
\<close>

theorem search_blog_posts_snippet_body_only:
  "search_blog_posts ascii_lower [renewable_post] ''renewable'' =
     [\<lparr> bpm_title = Str ''Energy outlook'',
        bpm_slug = Str ''energy-outlook'',
        bpm_url = ''/blog/energy-outlook'',
        bpm_excerpt = Str ''We explore renewable energy trends'',
        bpm_published_at = Str ''2024-01-01'',
        bpm_tags = Some [Str ''energy''],
        bpm_matched_snippet = None \<rparr>] \<and>
   select_snippet ascii_lower blog_post_fields ''renewable'' renewable_post =
     Some ''We explore renewable energy trends'' \<and>
   search_blog_pages ascii_lower [renewable_page] ''renewable'' =
     [\<lparr> bgm_title = Str ''Renewable energy'',
        bgm_slug = Str ''about'',
        bgm_url = ''/blog/about'',
        bgm_matched_snippet = None \<rparr>] \<and>
   select_snippet ascii_lower blog_page_fields ''renewable'' renewable_page =
     Some ''Renewable energy''"
  by code_simp

text \<open>
  C8: an event page that matches the query only in its flattened agenda (the hero
  title, the meta description and the additional details do not match) is retained, at
  its place in the result, and its snippet is the one extracted from the flattened
  agenda, which is not absent.
\<close>

theorem search_events_agenda_only:
  assumes "\<not> matchesQuery toLowerCase (ie_heroTitle evt) query"
    and "\<not> matchesQuery toLowerCase (ie_metaDescription evt) query"
    and "\<not> matchesQuery toLowerCase
           (Str (extractTextFromRichText (json_of (ie_additionalEventDetails evt)))) query"
    and "matchesQuery toLowerCase
           (Str (extractTextFromRichText (json_of (ie_agenda evt)))) query"
  shows "matchedInternal toLowerCase (before @ evt # after) query =
           matchedInternal toLowerCase before query @
           \<lparr> em_type = ''internal_event'',
             em_title = ie_heroTitle evt,
             em_description = ie_metaDescription evt,
             em_url = Str (''/events/'' @ ToString (ie_url evt)),
             em_date = ie_eventDate evt,
             em_matched_snippet =
               extractPlainTextSnippet toLowerCase
                 (Str (extractTextFromRichText (json_of (ie_agenda evt)))) query 150 \<rparr> #
           matchedInternal toLowerCase after query \<and>
         extractPlainTextSnippet toLowerCase
           (Str (extractTextFromRichText (json_of (ie_agenda evt)))) query 150 \<noteq> None"
  using assms
  by (simp add: matchedInternal_def Let_def extractPlainTextSnippet_None_iff [THEN iffD2]
      extractPlainTextSnippet_None_iff)

text \<open>
  The theorem at \<open>agenda_event\<close>.
\<close>

theorem search_events_agenda_only_witness:
  "search_events ascii_lower [agenda_event] [] ''renewable'' =
     [\<lparr> em_type = ''internal_event'',
        em_title = Str ''Annual Summit'',
        em_description = Str ''Join us in May'',
        em_url = Str ''/events/summit'',
        em_date = Str ''2024-05-01'',
        em_matched_snippet = Some ''Keynote on Renewable power'' \<rparr>]"
proof -
  have a: "\<not> matchesQuery ascii_lower (ie_heroTitle agenda_event) ''renewable''"
    by code_simp
  have b: "\<not> matchesQuery ascii_lower (ie_metaDescription agenda_event) ''renewable''"
    by code_simp
  have c: "\<not> matchesQuery ascii_lower
           (Str (extractTextFromRichText (json_of (ie_additionalEventDetails agenda_event))))
           ''renewable''"
    by code_simp
  have d: "matchesQuery ascii_lower
           (Str (extractTextFromRichText (json_of (ie_agenda agenda_event)))) ''renewable''"
    by code_simp
  have e: "extractPlainTextSnippet ascii_lower
           (Str (extractTextFromRichText (json_of (ie_agenda agenda_event)))) ''renewable'' 150 =
           Some ''Keynote on Renewable power''"
    by code_simp
  have f: "matchedInternal ascii_lower [] ''renewable'' = []"
          "matchedCards ascii_lower [] ''renewable'' = []"
    by (simp_all add: matchedInternal_def matchedCards_def)
  from search_events_agenda_only [OF a b c d, of "[]" "[]"] show ?thesis
    unfolding e f search_events_def by (simp add: agenda_event_def)
qed

text \<open>
  C9: inclusion is monotonic in the field list. For a fixed query and fixed records,
  the records retained for a field list are retained, in the same order, for the list
  with one more field at any position. The filters of the blog-post and the case-study
  tools are instances of this inclusion.
\<close>

theorem retained_by_monotonic:
  "subseq (retained_by toLowerCase (fieldSpec @ rest) query records)
          (retained_by toLowerCase (fieldSpec @ field # rest) query records) \<and>
   set (retained_by toLowerCase (fieldSpec @ rest) query records)
     \<subseteq> set (retained_by toLowerCase (fieldSpec @ field # rest) query records) \<and>
   (\<exists>f. search_blog_posts toLowerCase posts query =
         map f (retained_by toLowerCase blog_post_fields query posts)) \<and>
   (\<exists>f. search_case_studies toLowerCase items query =
         map f (retained_by toLowerCase case_study_fields query items))"
proof -
  have sub: "subseq (retained_by toLowerCase (fieldSpec @ rest) query records)
          (retained_by toLowerCase (fieldSpec @ field # rest) query records)"
    unfolding retained_by_def by (rule subseq_filter_mono) (auto simp: list_ex_iff)
  then have "set (retained_by toLowerCase (fieldSpec @ rest) query records)
     \<subseteq> set (retained_by toLowerCase (fieldSpec @ field # rest) query records)"
    by (auto elim: list_emb_set)
  with sub search_blog_posts_retained search_case_studies_retained show ?thesis
    by blast
qed

end
